theory Spec2Isabelle
  imports
    Main
    "HOL-Library.Char_ord"
    "HOL-Library.List_Lexorder"
    "HOL-Library.Sublist"
begin

section \<open>Analysis of a pixplot clustering result (clusterImages.py)\<close>

text \<open>
  The script reads a clustering result and an image list, resolves the clusters of
  interest to rows of the image list, derives a document title and a page number from
  every filename, and looks for pages lying between selected pages of a document.
  The functions of the script and the steps of its main block are embedded below as
  HOL functions. Python exceptions are values of \<open>error\<close>; a pandas cell holding a
  page number is a \<open>cell\<close>, whose \<open>NaN\<close> is the missing value of a numeric column.
\<close>

datatype error = IndexError | ValueError | TypeError

subsection \<open>Filename parser\<close>

text \<open>
  Both regular expressions of the script are sequences of single-character atoms of a
  fixed length: a literal character, the class \<open>[0-9]\<close>, and the dot, which matches
  every character but a newline. \<open>re_search\<close> is \<open>re.search\<close> for such a
  pattern: the match at the leftmost start position, or nothing.
\<close>

datatype atom = Lit char | Digit | AnyChar

definition is_digit :: "char \<Rightarrow> bool" where
  "is_digit c = (c \<in> set ''0123456789'')"

fun atom_ok :: "atom \<Rightarrow> char \<Rightarrow> bool" where
  "atom_ok (Lit l) c = (c = l)"
| "atom_ok Digit c = is_digit c"
| "atom_ok AnyChar c = (c \<noteq> CHR 0x0A)"

fun match_at :: "atom list \<Rightarrow> string \<Rightarrow> string option" where
  "match_at [] s = Some []"
| "match_at (a # as) [] = None"
| "match_at (a # as) (c # cs) =
     (if atom_ok a c then map_option ((#) c) (match_at as cs) else None)"

fun re_search :: "atom list \<Rightarrow> string \<Rightarrow> string option" where
  "re_search p [] = match_at p []"
| "re_search p (c # cs) =
     (case match_at p (c # cs) of Some g \<Rightarrow> Some g | None \<Rightarrow> re_search p cs)"

text \<open>The pattern \<^verbatim>\<open>[0-9]{3}.jpg\<close> of \<open>get_page_nr\<close>.\<close>

definition page_re :: "atom list" where
  "page_re = [Digit, Digit, Digit, AnyChar, Lit CHR ''j'', Lit CHR ''p'', Lit CHR ''g'']"

text \<open>The pattern \<^verbatim>\<open>HGB_[0-9]{1}_[0-9]{3}_[0-9]{3}\<close> of \<open>get_doc_title\<close>.\<close>

definition title_re :: "atom list" where
  "title_re = map Lit ''HGB_'' @ [Digit, Lit CHR ''_'', Digit, Digit, Digit,
     Lit CHR ''_'', Digit, Digit, Digit]"

text \<open>
  A document title is valid when the whole of it is a match of the title pattern: the
  tag, one digit and two groups of three digits, joined by underscores.
\<close>

definition valid_doc_title :: "string \<Rightarrow> bool" where
  "valid_doc_title t = (match_at title_re t = Some t)"

text \<open>\<open>int\<close> of Python on a string of decimal digits (leading zeros allowed).\<close>

definition int_of_digits :: "string \<Rightarrow> int" where
  "int_of_digits ds = foldl (\<lambda>acc c. 10 * acc + (int (of_char c) - 48)) 0 ds"

text \<open>
  \<open>get_page_nr\<close>: the first three characters of the match, as an integer; when
  nothing matches, \<open>re.search\<close> returns None, \<open>.group()\<close> raises, and the
  \<open>except\<close> branch returns None.
\<close>

definition get_page_nr :: "string \<Rightarrow> int option" where
  "get_page_nr filename =
     (case re_search page_re filename of
        None \<Rightarrow> None
      | Some g \<Rightarrow> Some (int_of_digits (take 3 g)))"

definition get_doc_title :: "string \<Rightarrow> string option" where
  "get_doc_title filename =
     (case re_search title_re filename of None \<Rightarrow> None | Some g \<Rightarrow> Some g)"

text \<open>
  The format specification \<^verbatim>\<open>03\<close> on an integer: decimal digits, padded with zeros
  to width three, the sign counted in the width and written first.
\<close>

definition digit_char :: "nat \<Rightarrow> char" where
  "digit_char d = ''0123456789'' ! d"

fun dec_digits :: "nat \<Rightarrow> string" where
  "dec_digits n =
     (if n < 10 then [digit_char n] else dec_digits (n div 10) @ [digit_char (n mod 10)])"

declare dec_digits.simps [simp del]

definition zfill :: "nat \<Rightarrow> string \<Rightarrow> string" where
  "zfill w s = replicate (w - length s) CHR ''0'' @ s"

definition fmt03 :: "int \<Rightarrow> string" where
  "fmt03 p =
     (if p < 0 then CHR ''-'' # zfill 2 (dec_digits (nat (- p)))
      else zfill 3 (dec_digits (nat p)))"

text \<open>\<open>str\<close> of Python on a value that is a string or None.\<close>

fun py_str :: "string option \<Rightarrow> string" where
  "py_str None = ''None''"
| "py_str (Some s) = s"

text \<open>
  \<open>get_filename\<close>: the f-string \<^verbatim>\<open>f'{doc_title}_{page_nr:03}.jpg'\<close> under
  \<open>try\<close>. An argument is a value or Python's None. Formatting None with \<^verbatim>\<open>03\<close>
  raises TypeError, which the \<open>except\<close> branch turns into None; formatting None
  with no format specification gives the text \<^verbatim>\<open>None\<close> and raises nothing.
\<close>

definition get_filename :: "string option \<Rightarrow> int option \<Rightarrow> string option" where
  "get_filename doc_title page_nr =
     (case page_nr of
        None \<Rightarrow> None
      | Some p \<Rightarrow> Some (py_str doc_title @ ''_'' @ fmt03 p @ ''.jpg''))"

subsection \<open>Cluster resolver\<close>

text \<open>
  The clustering result is a table with the columns \<open>label\<close> and \<open>images\<close>, one
  row per cluster; the image list is the column of filenames. The expression
  \<^verbatim>\<open>hotspot[hotspot['label'] == cluster]['images'].values[0]\<close> takes the first row whose
  label is the cluster's and raises IndexError when there is none.
\<close>

type_synonym hotspot = "(string \<times> int list) list"

definition cluster_images :: "hotspot \<Rightarrow> string \<Rightarrow> error + int list" where
  "cluster_images hotspot cluster =
     (case filter (\<lambda>row. fst row = cluster) hotspot of
        [] \<Rightarrow> Inl IndexError
      | row # _ \<Rightarrow> Inr (snd row))"

text \<open>The loop \<^verbatim>\<open>for cluster in cluster_of_interest: image_index += ...\<close>.\<close>

fun collect_index :: "hotspot \<Rightarrow> string list \<Rightarrow> int list \<Rightarrow> error + int list" where
  "collect_index hotspot [] image_index = Inr image_index"
| "collect_index hotspot (cluster # rest) image_index =
     (case cluster_images hotspot cluster of
        Inl e \<Rightarrow> Inl e
      | Inr images \<Rightarrow> collect_index hotspot rest (image_index @ images))"

text \<open>
  \<open>iloc\<close> with a list of positions: the rows at these positions, in the order of the
  list, a position repeated as often as the list repeats it. A negative position counts
  from the end; a position outside \<open>[-n, n)\<close> raises IndexError.
\<close>

definition iloc :: "'a list \<Rightarrow> int list \<Rightarrow> error + 'a list" where
  "iloc rows idx =
     (let n = int (length rows) in
      if list_all (\<lambda>i. - n \<le> i \<and> i < n) idx
      then Inr (map (\<lambda>i. rows ! nat (if i < 0 then i + n else i)) idx)
      else Inl IndexError)"

definition get_selected_images :: "hotspot \<Rightarrow> string list \<Rightarrow> string list \<Rightarrow> error + string list" where
  "get_selected_images hotspot imagelist cluster_of_interest =
     (case collect_index hotspot cluster_of_interest [] of
        Inl e \<Rightarrow> Inl e
      | Inr image_index \<Rightarrow> iloc imagelist image_index)"

text \<open>
  What the script expects of its input: every label of interest is the label of a
  cluster, and every index of a cluster is a position of the image list.
\<close>

definition labels_valid :: "hotspot \<Rightarrow> string list \<Rightarrow> bool" where
  "labels_valid hotspot cluster_of_interest =
     list_all (\<lambda>cluster. cluster \<in> fst ` set hotspot) cluster_of_interest"

definition indices_valid :: "hotspot \<Rightarrow> nat \<Rightarrow> bool" where
  "indices_valid hotspot n =
     list_all (\<lambda>row. list_all (\<lambda>i. 0 \<le> i \<and> i < int n) (snd row)) hotspot"

subsection \<open>Annotated rows and the number of pages of a document\<close>

text \<open>
  A row of the image list after the columns \<open>doc_title\<close> and \<open>page_nr\<close> were
  added. The title column holds strings and None. The page column is numeric as soon
  as one filename of the table has a page number: where \<open>get_page_nr\<close> returned
  None, pandas then stores \<open>NaN\<close>.
\<close>

datatype cell = NaN | Num int

record image =
  filename :: string
  doc_title :: "string option"
  page_nr :: cell

definition page_cell :: "int option \<Rightarrow> cell" where
  "page_cell v = (case v of None \<Rightarrow> NaN | Some n \<Rightarrow> Num n)"

definition annotate :: "string \<Rightarrow> image" where
  "annotate f = \<lparr>filename = f, doc_title = get_doc_title f, page_nr = page_cell (get_page_nr f)\<rparr>"

text \<open>
  \<open>groupby('doc_title')\<close>: one group per title that occurs, in ascending order of
  the titles; a row whose title is None belongs to no group. The rows of a group keep
  the order of the table.
\<close>

definition group_keys :: "image list \<Rightarrow> string list" where
  "group_keys rows = sort (remdups (List.map_filter doc_title rows))"

definition group_rows :: "image list \<Rightarrow> string \<Rightarrow> image list" where
  "group_rows rows name = filter (\<lambda>r. doc_title r = Some name) rows"

fun numbers :: "cell list \<Rightarrow> int list" where
  "numbers [] = []"
| "numbers (NaN # cs) = numbers cs"
| "numbers (Num n # cs) = n # numbers cs"

text \<open>
  The maximum of a group skips \<open>NaN\<close>; a group with no number has the maximum
  \<open>NaN\<close>, and keeps its row in the result.
\<close>

definition group_max :: "cell list \<Rightarrow> cell" where
  "group_max cells = (case numbers cells of [] \<Rightarrow> NaN | n # ns \<Rightarrow> Num (fold max ns n))"

definition n_pages :: "image list \<Rightarrow> (string \<times> cell) list" where
  "n_pages imagelist =
     map (\<lambda>name. (name, group_max (map page_nr (group_rows imagelist name))))
       (group_keys imagelist)"

subsection \<open>Pages between selected pages\<close>

text \<open>
  Arithmetic and comparison on cells as on Python floats: \<open>NaN + 1\<close> is \<open>NaN\<close>, and
  \<open>NaN\<close> is equal to nothing, itself included.
\<close>

fun cell_add1 :: "cell \<Rightarrow> cell" where
  "cell_add1 NaN = NaN"
| "cell_add1 (Num n) = Num (n + 1)"

fun cell_eq :: "cell \<Rightarrow> cell \<Rightarrow> bool" where
  "cell_eq (Num a) (Num b) = (a = b)"
| "cell_eq NaN c = False"
| "cell_eq (Num a) NaN = False"

type_synonym gaprec = "string \<times> cell"

text \<open>
  The inner loop \<^verbatim>\<open>while page_nr != page_nr_current\<close>, which appends one record per
  round to \<open>image_between_selected\<close>. It need not terminate: the result None is the
  loop that runs forever.
\<close>

partial_function (option) gap_while :: "string \<Rightarrow> cell \<Rightarrow> cell \<Rightarrow> gaprec list \<Rightarrow> gaprec list option" where
  "gap_while name page page_nr_current between =
     (if \<not> cell_eq page page_nr_current
      then gap_while name (cell_add1 page) page_nr_current (between @ [(name, page)])
      else Some between)"

declare gap_while.simps [code]

text \<open>
  The loop over the pages of one document. \<open>page_nr_last\<close> is None before the first
  page. The test \<^verbatim>\<open>not page_nr_last\<close> holds for None and for the number zero; \<open>NaN\<close>
  is a true value.
\<close>

fun page_loop :: "string \<Rightarrow> cell option \<Rightarrow> cell list \<Rightarrow> gaprec list \<Rightarrow> gaprec list option" where
  "page_loop name page_nr_last [] between = Some between"
| "page_loop name page_nr_last (page_nr_current # rest) between =
     (case page_nr_last of
        None \<Rightarrow> page_loop name (Some page_nr_current) rest between
      | Some p_last \<Rightarrow>
          if p_last = Num 0 then page_loop name (Some page_nr_current) rest between
          else if cell_eq page_nr_current (cell_add1 p_last)
          then page_loop name (Some page_nr_current) rest between
          else (case gap_while name (cell_add1 p_last) page_nr_current between of
                  None \<Rightarrow> None
                | Some between' \<Rightarrow> page_loop name (Some page_nr_current) rest between'))"

text \<open>\<open>sort_values('page_nr')\<close>: the numbers ascending, then the \<open>NaN\<close> cells.\<close>

definition sort_values :: "cell list \<Rightarrow> cell list" where
  "sort_values cells = map Num (sort (numbers cells)) @ filter (\<lambda>c. c = NaN) cells"

text \<open>The loop over the documents, and the table \<open>image_between_selected\<close> it builds.\<close>

fun doc_loop :: "image list \<Rightarrow> string list \<Rightarrow> gaprec list \<Rightarrow> gaprec list option" where
  "doc_loop rows [] between = Some between"
| "doc_loop rows (name # names) between =
     (case page_loop name None (sort_values (map page_nr (group_rows rows name))) between of
        None \<Rightarrow> None
      | Some between' \<Rightarrow> doc_loop rows names between')"

definition image_between_selected :: "image list \<Rightarrow> gaprec list option" where
  "image_between_selected image_selected =
     doc_loop image_selected (group_keys image_selected) []"

subsection \<open>Samples\<close>


definition random_sample :: "nat list \<Rightarrow> nat \<Rightarrow> nat \<Rightarrow> error + nat list" where
  "random_sample drawn n k = (if k \<le> n then Inr drawn else Inl ValueError)"

text \<open>\<^verbatim>\<open>table.iloc[random.sample(range(table.shape[0]), k)]\<close>.\<close>

definition sample_rows :: "nat list \<Rightarrow> 'a list \<Rightarrow> nat \<Rightarrow> error + 'a list" where
  "sample_rows drawn rows k =
     (case random_sample drawn (length rows) k of
        Inl e \<Rightarrow> Inl e
      | Inr idx \<Rightarrow> iloc rows (map int idx))"

text \<open>The four places of the main block that take a sample of 1000 rows.\<close>

definition image_between_selected_sample :: "nat list \<Rightarrow> 'a list \<Rightarrow> error + 'a list" where
  "image_between_selected_sample drawn between =
     (if length between > 1000 then sample_rows drawn between 1000 else Inr between)"

definition image_selected_sample :: "nat list \<Rightarrow> 'a list \<Rightarrow> error + 'a list" where
  "image_selected_sample drawn image_selected = sample_rows drawn image_selected 1000"

definition image_sample :: "nat list \<Rightarrow> 'a list \<Rightarrow> error + 'a list" where
  "image_sample drawn imagelist = sample_rows drawn imagelist 1000"

definition user_image_selected_sample :: "nat list \<Rightarrow> 'a list \<Rightarrow> error + 'a list" where
  "user_image_selected_sample drawn user_image_selected =
     sample_rows drawn user_image_selected 1000"

section \<open>Properties of the filename parser\<close>

subsection \<open>Decimal digits\<close>

lemma digit_cases: "d < 10 \<Longrightarrow> d \<in> {0, 1, 2, 3, 4, 5, 6, 7, 8, 9 :: nat}"
  by auto

lemma is_digit_digit_char: "d < 10 \<Longrightarrow> is_digit (digit_char d)"
  using digit_cases [of d] by (auto simp: is_digit_def digit_char_def)

lemma of_char_digit_char: "d < 10 \<Longrightarrow> int (of_char (digit_char d)) = 48 + int d"
  using digit_cases [of d] by (auto simp: digit_char_def)

lemma dec_digits_small: "n < 10 \<Longrightarrow> dec_digits n = [digit_char n]"
  by (simp add: dec_digits.simps)

lemma dec_digits_step:
  "\<not> n < 10 \<Longrightarrow> dec_digits n = dec_digits (n div 10) @ [digit_char (n mod 10)]"
  by (subst dec_digits.simps) simp

lemma digit_char_0: "digit_char 0 = CHR ''0''"
  by (simp add: digit_char_def)

lemma zfill3_1: "zfill 3 [a] = [CHR ''0'', CHR ''0'', a]"
  by (simp add: zfill_def numeral_2_eq_2)

lemma zfill3_2: "zfill 3 [a, b] = [CHR ''0'', a, b]"
  by (simp add: zfill_def)

lemma zfill3_3: "zfill 3 [a, b, c] = [a, b, c]"
  by (simp add: zfill_def)

text \<open>A page number from 0 to 999 is written with exactly three digits.\<close>

lemma fmt03_small:
  assumes "0 \<le> p" "p < 1000"
  shows "fmt03 p = [digit_char (nat p div 10 div 10), digit_char (nat p div 10 mod 10),
    digit_char (nat p mod 10)]"
proof -
  let ?n = "nat p"
  have n: "?n < 1000" using assms by simp
  have pos: "\<not> p < 0" using assms by simp
  have f: "fmt03 p = zfill 3 (dec_digits ?n)" using pos by (simp add: fmt03_def)
  show ?thesis
  proof (cases "?n < 10")
    case True
    then have "dec_digits ?n = [digit_char ?n]" by (rule dec_digits_small)
    moreover have "?n div 10 = 0" "?n mod 10 = ?n" using True by simp_all
    ultimately show ?thesis
      by (simp add: f zfill3_1 digit_char_0)
  next
    case False
    show ?thesis
    proof (cases "?n div 10 < 10")
      case True
      have "dec_digits ?n = [digit_char (?n div 10), digit_char (?n mod 10)]"
        using True False by (simp add: dec_digits_step dec_digits_small)
      moreover have "?n div 10 div 10 = 0" "?n div 10 mod 10 = ?n div 10"
        using True by simp_all
      ultimately show ?thesis
        by (simp add: f zfill3_2 digit_char_0)
    next
      case F2: False
      have b: "?n div 10 div 10 < 10" using n by simp
      have "dec_digits ?n = [digit_char (?n div 10 div 10), digit_char (?n div 10 mod 10),
          digit_char (?n mod 10)]"
        using False F2 b by (simp add: dec_digits_step dec_digits_small)
      then show ?thesis
        by (simp add: f zfill3_3)
    qed
  qed
qed

lemma int_of_digits3:
  assumes "a < 10" "b < 10" "c < 10"
  shows "int_of_digits [digit_char a, digit_char b, digit_char c] = int (100 * a + 10 * b + c)"
  using assms by (simp add: int_of_digits_def of_char_digit_char)

lemma digits_recompose:
  "100 * (n div 10 div 10) + 10 * (n div 10 mod 10) + n mod 10 = (n::nat)"
proof -
  have a: "10 * (n div 10 div 10) + n div 10 mod 10 = n div 10"
    by (rule mult_div_mod_eq)
  have "100 * (n div 10 div 10) + 10 * (n div 10 mod 10) =
      10 * (10 * (n div 10 div 10) + n div 10 mod 10)"
    by (simp only: distrib_left mult.assoc [symmetric])
  also have "\<dots> = 10 * (n div 10)" by (simp only: a)
  finally show ?thesis by simp
qed

subsection \<open>Matching\<close>

lemma match_at_Cons_Some:
  "match_at (a # as) s = Some r \<longleftrightarrow>
     (\<exists>c cs r'. s = c # cs \<and> atom_ok a c \<and> match_at as cs = Some r' \<and> r = c # r')"
  by (cases s) auto

lemma valid_title_shape:
  assumes "valid_doc_title t"
  shows "\<exists>d a b c e f g. t = ''HGB_'' @ [d, CHR ''_'', a, b, c, CHR ''_'', e, f, g] \<and>
    is_digit d \<and> is_digit a \<and> is_digit b \<and> is_digit c \<and> is_digit e \<and> is_digit f \<and>
    is_digit g"
  using assms unfolding title_re_def valid_doc_title_def
  by (auto simp: match_at_Cons_Some)

lemma is_digit_not_j: "is_digit c \<Longrightarrow> (c = CHR ''j'') = False"
  by (auto simp: is_digit_def)

lemma is_digit_lits:
  "\<not> is_digit CHR ''H''" "\<not> is_digit CHR ''G''" "\<not> is_digit CHR ''B''"
  "\<not> is_digit CHR ''_''" "\<not> is_digit CHR ''.''"
  by (simp_all add: is_digit_def)

lemma title_found:
  assumes "is_digit d" "is_digit a" "is_digit b" "is_digit c" "is_digit e" "is_digit f"
    "is_digit g"
  shows "get_doc_title (''HGB_'' @ [d, CHR ''_'', a, b, c, CHR ''_'', e, f, g] @ rest) =
    Some (''HGB_'' @ [d, CHR ''_'', a, b, c, CHR ''_'', e, f, g])"
  using assms by (simp add: get_doc_title_def title_re_def)

text \<open>
  In a filename built from a valid title, the page pattern matches at one place only:
  the letters \<open>jpg\<close> occur once, behind the page number.
\<close>

lemma page_found:
  assumes "is_digit d" "is_digit a" "is_digit b" "is_digit c" "is_digit e" "is_digit f"
    "is_digit g" "is_digit x" "is_digit y" "is_digit z"
  shows "re_search page_re
      (''HGB_'' @ [d, CHR ''_'', a, b, c, CHR ''_'', e, f, g] @ ''_'' @ [x, y, z] @ ''.jpg'') =
    Some ([x, y, z] @ ''.jpg'')"
  using assms by (simp add: page_re_def is_digit_lits is_digit_not_j)

lemma get_filename_missing_page: "get_filename t None = None"
  by (simp add: get_filename_def)

text \<open>
  C6. \<open>get_filename\<close> is to return None whenever the title or the page number is
  missing. It does so for a missing page number (\<open>get_filename_missing_page\<close>). For a
  missing title and the page number 7 it returns the filename \<^verbatim>\<open>None_007.jpg\<close>, which
  embeds the absent value.
\<close>

theorem get_filename_missing_title:
  "get_filename None (Some 7) = Some ''None_007.jpg''"
  by (simp add: get_filename_def fmt03_def zfill_def dec_digits.simps digit_char_def
      eval_nat_numeral)

text \<open>
  C9. For every valid document title \<open>t\<close> and every page number \<open>p\<close> from 1 to 999,
  \<open>get_filename\<close> returns a filename from which \<open>get_doc_title\<close> reads \<open>t\<close> back
  and \<open>get_page_nr\<close> reads \<open>p\<close> back.
\<close>

theorem filename_roundtrip:
  assumes t: "valid_doc_title t" and p: "1 \<le> p" "p \<le> 999"
  shows "\<exists>f. get_filename (Some t) (Some p) = Some f \<and>
    get_doc_title f = Some t \<and> get_page_nr f = Some p"
proof -
  from valid_title_shape [OF t] obtain d a b c e f g where
    tt: "t = ''HGB_'' @ [d, CHR ''_'', a, b, c, CHR ''_'', e, f, g]"
    and dg: "is_digit d" "is_digit a" "is_digit b" "is_digit c" "is_digit e" "is_digit f"
      "is_digit g"
    by blast
  let ?n = "nat p"
  let ?x = "digit_char (?n div 10 div 10)"
  let ?y = "digit_char (?n div 10 mod 10)"
  let ?z = "digit_char (?n mod 10)"
  let ?f = "t @ ''_'' @ [?x, ?y, ?z] @ ''.jpg''"
  have n: "?n < 1000" using p by simp
  have lt: "?n div 10 div 10 < 10" "?n div 10 mod 10 < 10" "?n mod 10 < 10"
    using n by simp_all
  have xd: "is_digit ?x" "is_digit ?y" "is_digit ?z"
    using lt by (simp_all add: is_digit_digit_char)
  have fm: "fmt03 p = [?x, ?y, ?z]" using p by (simp add: fmt03_small)
  have fn: "get_filename (Some t) (Some p) = Some ?f"
    by (simp add: get_filename_def fm)
  have title: "get_doc_title ?f = Some t"
    unfolding tt using title_found [OF dg] by simp
  have "re_search page_re ?f = Some ([?x, ?y, ?z] @ ''.jpg'')"
    unfolding tt using page_found [OF dg xd] by simp
  then have "get_page_nr ?f = Some (int_of_digits [?x, ?y, ?z])"
    by (simp add: get_page_nr_def)
  also have "\<dots> =
      Some (int (100 * (?n div 10 div 10) + 10 * (?n div 10 mod 10) + ?n mod 10))"
    using lt by (simp only: int_of_digits3)
  also have "\<dots> = Some p" using p by (simp only: digits_recompose) simp
  finally have page: "get_page_nr ?f = Some p" .
  show ?thesis using fn title page by blast
qed

theorem filename_roundtrip_witness:
  "valid_doc_title ''HGB_1_001_002'' \<and> (1::int) \<le> 7 \<and> (7::int) \<le> 999 \<and>
   get_filename (Some ''HGB_1_001_002'') (Some 7) = Some ''HGB_1_001_002_007.jpg'' \<and>
   get_doc_title ''HGB_1_001_002_007.jpg'' = Some ''HGB_1_001_002'' \<and>
   get_page_nr ''HGB_1_001_002_007.jpg'' = Some 7"
proof -
  have v: "valid_doc_title ''HGB_1_001_002''"
    by (simp add: valid_doc_title_def title_re_def is_digit_def)
  have f: "get_filename (Some ''HGB_1_001_002'') (Some 7) = Some ''HGB_1_001_002_007.jpg''"
    by (simp add: get_filename_def fmt03_def zfill_def dec_digits.simps digit_char_def
        eval_nat_numeral)
  from filename_roundtrip [OF v, of 7] f show ?thesis using v by simp
qed

section \<open>Properties of the cluster resolver\<close>

lemma cluster_images_map_of:
  "cluster_images h c = (case map_of h c of None \<Rightarrow> Inl IndexError | Some is \<Rightarrow> Inr is)"
  by (induction h) (auto simp: cluster_images_def)

lemma labels_valid_map_of:
  "labels_valid h cs \<Longrightarrow> c \<in> set cs \<Longrightarrow> \<exists>is. map_of h c = Some is"
  by (auto simp: labels_valid_def list_all_iff weak_map_of_SomeI dest!: weak_map_of_SomeI)

lemma collect_index_valid:
  assumes "labels_valid h cs"
  shows "collect_index h cs acc = Inr (acc @ concat (map (\<lambda>c. the (map_of h c)) cs))"
  using assms
proof (induction cs arbitrary: acc)
  case Nil
  then show ?case by simp
next
  case (Cons c cs)
  from Cons.prems obtain "is" where m: "map_of h c = Some is"
    using labels_valid_map_of [of h "c # cs" c] by auto
  have "labels_valid h cs" using Cons.prems by (simp add: labels_valid_def)
  then show ?case using Cons.IH m by (simp add: cluster_images_map_of)
qed

lemma collected_indices_valid:
  assumes "labels_valid h cs" "indices_valid h n"
  shows "list_all (\<lambda>i. 0 \<le> i \<and> i < int n) (concat (map (\<lambda>c. the (map_of h c)) cs))"
proof -
  have "list_all (\<lambda>i. 0 \<le> i \<and> i < int n) (the (map_of h c))" if "c \<in> set cs" for c
  proof -
    from labels_valid_map_of [OF assms(1) that] obtain "is" where m: "map_of h c = Some is"
      by blast
    then have "(c, is) \<in> set h" by (rule map_of_SomeD)
    then show ?thesis using assms(2) m by (auto simp: indices_valid_def list_all_iff)
  qed
  then show ?thesis by (auto simp: list_all_iff)
qed

lemma iloc_valid:
  assumes "list_all (\<lambda>i. 0 \<le> i \<and> i < int (length rows)) idx"
  shows "iloc rows idx = Inr (map (\<lambda>i. rows ! nat i) idx)"
proof -
  have a: "list_all (\<lambda>i. - int (length rows) \<le> i \<and> i < int (length rows)) idx"
    using assms by (auto simp: list_all_iff)
  have "map (\<lambda>i. rows ! nat (if i < 0 then i + int (length rows) else i)) idx =
      map (\<lambda>i. rows ! nat i) idx"
    using assms by (auto simp: list_all_iff)
  then show ?thesis using a by (simp add: iloc_def)
qed

lemma nth_sel_subset:
  assumes "list_all (\<lambda>i. 0 \<le> i \<and> i < int (length rows)) idx"
  shows "set (map (\<lambda>i. rows ! nat i) idx) \<subseteq> set rows"
  using assms by (auto simp: list_all_iff)

lemma nth_sel_distinct:
  assumes "list_all (\<lambda>i. 0 \<le> i \<and> i < int (length rows)) idx" "distinct rows"
  shows "distinct (map (\<lambda>i. rows ! nat i) idx) = distinct idx"
proof -
  have "inj_on (\<lambda>i. rows ! nat i) (set idx)"
  proof (rule inj_onI)
    fix i j
    assume h: "i \<in> set idx" "j \<in> set idx" "rows ! nat i = rows ! nat j"
    then have "nat i < length rows" "nat j < length rows" "0 \<le> i" "0 \<le> j"
      using assms(1) by (auto simp: list_all_iff)
    with h assms(2) show "i = j" by (auto simp: nth_eq_iff_index_eq)
  qed
  then show ?thesis by (auto simp: distinct_map)
qed

text \<open>
  C1, as the code has it. For valid labels and valid indices, the selection is one row
  of the image list per index collected; every filename of it is a filename of the image
  list; and, for an image list without duplicate filenames, it is free of duplicates
  exactly when no index was collected twice. No union is formed.
\<close>

theorem selection_rows_of_imagelist:
  assumes "labels_valid h cs" "indices_valid h (length il)"
  shows "\<exists>idx. collect_index h cs [] = Inr idx \<and>
    get_selected_images h il cs = Inr (map (\<lambda>i. il ! nat i) idx) \<and>
    set (map (\<lambda>i. il ! nat i) idx) \<subseteq> set il \<and>
    (distinct il \<longrightarrow> distinct (map (\<lambda>i. il ! nat i) idx) = distinct idx)"
proof -
  let ?idx = "concat (map (\<lambda>c. the (map_of h c)) cs)"
  have c: "collect_index h cs [] = Inr ?idx"
    using collect_index_valid [OF assms(1), of "[]"] by simp
  have v: "list_all (\<lambda>i. 0 \<le> i \<and> i < int (length il)) ?idx"
    by (rule collected_indices_valid [OF assms])
  have g: "get_selected_images h il cs = Inr (map (\<lambda>i. il ! nat i) ?idx)"
    by (simp add: get_selected_images_def c iloc_valid [OF v])
  show ?thesis
    using c g nth_sel_subset [OF v] nth_sel_distinct [OF v] by blast
qed

theorem selection_rows_of_imagelist_witness:
  "labels_valid [(''Cluster 8'', [0, 1]), (''Cluster 9'', [2])] [''Cluster 8'', ''Cluster 9''] \<and>
   indices_valid [(''Cluster 8'', [0, 1]), (''Cluster 9'', [2])] (length [''a'', ''b'', ''c'']) \<and>
   get_selected_images [(''Cluster 8'', [0, 1]), (''Cluster 9'', [2])] [''a'', ''b'', ''c'']
     [''Cluster 8'', ''Cluster 9''] = Inr [''a'', ''b'', ''c''] \<and>
   set [''a'', ''b'', ''c''] \<subseteq> set [''a'', ''b'', ''c'']"
  using selection_rows_of_imagelist [of "[(''Cluster 8'', [0, 1]), (''Cluster 9'', [2])]"
      "[''Cluster 8'', ''Cluster 9'']" "[''a'', ''b'', ''c'']"]
  by (simp add: labels_valid_def indices_valid_def cluster_images_def)

text \<open>
  The claim C1 fails where two clusters of interest share an index: the image at that
  index is selected twice.
\<close>

theorem selection_duplicates_counterexample:
  "get_selected_images [(''Cluster 8'', [0, 1]), (''Cluster 9'', [1, 2])] [''a'', ''b'', ''c'']
     [''Cluster 8'', ''Cluster 9''] = Inr [''a'', ''b'', ''b'', ''c''] \<and>
   \<not> distinct [''a'', ''b'', ''b'', ''c'']"
  by (simp add: get_selected_images_def cluster_images_def iloc_def)

text \<open>
  C2, as the code has it. For valid labels and valid indices, the rows of the selection
  stand in the order in which the indices were collected: label after label of the
  labels of interest, and within a label in the order of the cluster's index list.
\<close>

theorem selection_order_of_indices:
  assumes "labels_valid h cs" "indices_valid h (length il)"
  shows "get_selected_images h il cs =
    Inr (map (\<lambda>i. il ! nat i) (concat (map (\<lambda>c. the (map_of h c)) cs)))"
proof -
  let ?idx = "concat (map (\<lambda>c. the (map_of h c)) cs)"
  have c: "collect_index h cs [] = Inr ?idx"
    using collect_index_valid [OF assms(1), of "[]"] by simp
  have v: "list_all (\<lambda>i. 0 \<le> i \<and> i < int (length il)) ?idx"
    by (rule collected_indices_valid [OF assms])
  show ?thesis
    by (simp add: get_selected_images_def c iloc_valid [OF v])
qed

theorem selection_order_of_indices_witness:
  "labels_valid [(''Cluster 8'', [3, 0])] [''Cluster 8''] \<and>
   indices_valid [(''Cluster 8'', [3, 0])] (length [''a'', ''b'', ''c'', ''d'']) \<and>
   get_selected_images [(''Cluster 8'', [3, 0])] [''a'', ''b'', ''c'', ''d''] [''Cluster 8''] =
     Inr [''d'', ''a'']"
  using selection_order_of_indices [of "[(''Cluster 8'', [3, 0])]" "[''Cluster 8'']"
      "[''a'', ''b'', ''c'', ''d'']"]
  by (simp add: labels_valid_def indices_valid_def)

text \<open>
  The claim C2 fails on its own example: for the image list a, b, c, d and the cluster
  indices 3, 0 the selection is d, a.
\<close>

theorem selection_order_counterexample:
  "get_selected_images [(''Cluster 8'', [3, 0])] [''a'', ''b'', ''c'', ''d''] [''Cluster 8''] =
     Inr [''d'', ''a''] \<and>
   get_selected_images [(''Cluster 8'', [3, 0])] [''a'', ''b'', ''c'', ''d''] [''Cluster 8''] \<noteq>
     Inr [''a'', ''d'']"
  by (simp add: get_selected_images_def cluster_images_def iloc_def)

section \<open>Properties of the search for pages between selected pages\<close>

subsection \<open>The inner loop\<close>

text \<open>
  The inner loop returns only when it starts at a number that is not beyond the current
  page; with a \<open>NaN\<close> on either side, or started beyond the current page, it runs
  forever.
\<close>

lemma gap_while_Some_numbers:
  assumes "gap_while name page cur between = Some y"
  shows "\<exists>a b. page = Num a \<and> cur = Num b \<and> a \<le> b"
  using assms
proof (rule gap_while.raw_induct [rotated,
      where P = "\<lambda>name page cur between y. \<exists>a b. page = Num a \<and> cur = Num b \<and> a \<le> b"])
  fix gw :: "string \<Rightarrow> cell \<Rightarrow> cell \<Rightarrow> gaprec list \<Rightarrow> gaprec list option"
  fix name page cur between y
  assume IH: "\<And>name page cur between y. gw name page cur between = Some y \<Longrightarrow>
      \<exists>a b. page = Num a \<and> cur = Num b \<and> a \<le> b"
  assume body: "(if \<not> cell_eq page cur
      then gw name (cell_add1 page) cur (between @ [(name, page)])
      else Some between) = Some y"
  show "\<exists>a b. page = Num a \<and> cur = Num b \<and> a \<le> b"
  proof (cases "cell_eq page cur")
    case True
    then show ?thesis by (cases page; cases cur) auto
  next
    case False
    with body have "gw name (cell_add1 page) cur (between @ [(name, page)]) = Some y"
      by simp
    from IH [OF this] obtain a b where "cell_add1 page = Num a" "cur = Num b" "a \<le> b"
      by blast
    moreover from False have "\<not> cell_eq page cur" .
    ultimately show ?thesis by (cases page) auto
  qed
qed

lemma gap_while_NaN: "gap_while name page NaN between = None"
  using gap_while_Some_numbers [of name page NaN between]
  by (cases "gap_while name page NaN between") auto

lemma gap_while_past: "b < a \<Longrightarrow> gap_while name (Num a) (Num b) between = None"
  using gap_while_Some_numbers [of name "Num a" "Num b" between]
  by (cases "gap_while name (Num a) (Num b) between") auto

text \<open>
  Started at a number up to the current page, the loop terminates and appends every
  page from the start up to the page before the current one, ascending.
\<close>

lemma gap_while_upto:
  "a \<le> b \<Longrightarrow> gap_while name (Num a) (Num b) between =
     Some (between @ map (\<lambda>g. (name, Num g)) [a..b - 1])"
proof (induction "nat (b - a)" arbitrary: a between)
  case 0
  then have "a = b" by simp
  then show ?case by (subst gap_while.simps) simp
next
  case (Suc n)
  then have lt: "a < b" and n: "n = nat (b - (a + 1))" and le: "a + 1 \<le> b" by simp_all
  have u: "[a..b - 1] = a # [a + 1..b - 1]" using lt by (simp add: upto_rec1)
  show ?case
    using lt Suc.hyps(1) [OF n le, of "between @ [(name, Num a)]"]
    by (subst gap_while.simps) (simp add: u)
qed

subsection \<open>The loop over the pages of a document\<close>

text \<open>
  Behind a selected page \<open>l\<close> other than zero: the next page \<open>l + 1\<close> adds nothing,
  and a later page \<open>p\<close> adds the pages strictly between \<open>l\<close> and \<open>p\<close>, ascending.
\<close>

lemma page_loop_run_step:
  assumes "l \<noteq> 0"
  shows "page_loop name (Some (Num l)) (Num (l + 1) # rest) between =
    page_loop name (Some (Num (l + 1))) rest between"
  using assms by simp

lemma page_loop_gap_step:
  assumes "l \<noteq> 0" "l + 1 < p"
  shows "page_loop name (Some (Num l)) (Num p # rest) between =
    page_loop name (Some (Num p)) rest (between @ map (\<lambda>g. (name, Num g)) [l + 1..p - 1])"
  using assms by (simp add: gap_while_upto)

lemmas annotate_defs =
  annotate_def get_doc_title_def get_page_nr_def title_re_def page_re_def is_digit_def
  page_cell_def int_of_digits_def

lemmas between_defs =
  image_between_selected_def group_keys_def group_rows_def sort_values_def

text \<open>The examples of the specification: the selected pages 1, 2, 5; 1, 2, 3; and 5.\<close>

lemma gaps_of_pages_1_2_5:
  "image_between_selected (map annotate
     [''HGB_1_001_002_001.jpg'', ''HGB_1_001_002_002.jpg'', ''HGB_1_001_002_005.jpg'']) =
   Some [(''HGB_1_001_002'', Num 3), (''HGB_1_001_002'', Num 4)]"
  by (simp add: between_defs annotate_defs gap_while.simps)

lemma gaps_of_pages_1_2_3:
  "image_between_selected (map annotate
     [''HGB_1_001_002_001.jpg'', ''HGB_1_001_002_002.jpg'', ''HGB_1_001_002_003.jpg'']) =
   Some []"
  by (simp add: between_defs annotate_defs)

lemma gaps_of_page_5:
  "image_between_selected (map annotate [''HGB_1_001_002_005.jpg'']) = Some []"
  by (simp add: between_defs annotate_defs)

text \<open>
  C3. Between two consecutive selected pages that are not adjacent, every page strictly
  between them is to be emitted. The examples of the claim hold
  (\<open>gaps_of_pages_1_2_5\<close>, \<open>gaps_of_pages_1_2_3\<close>, \<open>gaps_of_page_5\<close>), and so does
  the rule behind every selected page other than zero (\<open>page_loop_gap_step\<close>). For the
  selected pages 0 and 3 of one document the code emits nothing, where the claim has
  the pages 1 and 2.
\<close>

theorem no_gaps_behind_page_zero:
  "image_between_selected (map annotate
     [''HGB_1_001_002_000.jpg'', ''HGB_1_001_002_003.jpg'']) = Some []"
  by (simp add: between_defs annotate_defs)

text \<open>
  The sorted pages of a document begin with its smallest page number.
\<close>

lemma sort_min_head:
  fixes xs :: "int list"
  assumes "xs \<noteq> []"
  shows "\<exists>ys. sort xs = Min (set xs) # ys"
proof -
  have "sort xs \<noteq> []" using assms by (metis length_sort length_0_conv)
  then obtain y ys where s: "sort xs = y # ys" by (cases "sort xs") auto
  have "sorted (y # ys)" using s by (metis sorted_sort)
  then have le: "\<And>z. z \<in> set ys \<Longrightarrow> y \<le> z" by auto
  have st: "set xs = set (y # ys)" using s by (metis set_sort)
  have "Min (set xs) = y"
    unfolding st by (rule Min_eqI) (use le in auto)
  then show ?thesis using s by simp
qed

lemma sort_values_min_zero:
  assumes "numbers cells \<noteq> []" "Min (set (numbers cells)) = 0"
  shows "\<exists>rest. sort_values cells = Num 0 # rest"
  using sort_min_head [OF assms(1)] assms(2) by (auto simp: sort_values_def)

text \<open>
  C10. When the smallest selected page of a document is 0, its sorted pages begin with 0
  (\<open>sort_values_min_zero\<close>), and the loop goes on behind the page 0 as it starts on
  the remaining pages: it takes the next selected page \<open>p\<close> for the first one and
  reaches the state behind \<open>p\<close> with the table of pages between unchanged. Pages
  between later selected pages are found as in the document without the page 0.
\<close>

theorem page_zero_is_sentinel:
  "page_loop name None (Num 0 # rest) between = page_loop name None rest between \<and>
   page_loop name None (Num 0 # Num p # rest') between =
     page_loop name (Some (Num p)) rest' between"
  by (cases rest) simp_all

theorem page_zero_is_sentinel_witness:
  "page_loop ''HGB_1_001_002'' None [Num 0, Num 3, Num 6] [] =
     page_loop ''HGB_1_001_002'' None [Num 3, Num 6] [] \<and>
   page_loop ''HGB_1_001_002'' None [Num 0, Num 3, Num 6] [] =
     page_loop ''HGB_1_001_002'' (Some (Num 3)) [Num 6] [] \<and>
   page_loop ''HGB_1_001_002'' None [Num 0, Num 3, Num 6] [] =
     Some [(''HGB_1_001_002'', Num 4), (''HGB_1_001_002'', Num 5)]"
  using page_zero_is_sentinel [of "''HGB_1_001_002''" "[Num 3, Num 6]" "[]" 3 "[Num 6]"]
  by (simp add: gap_while.simps)

subsection \<open>Rows with a missing title or a missing page number\<close>

lemma map_filter_title_filter:
  "List.map_filter doc_title (filter (\<lambda>r. doc_title r \<noteq> None) rows) =
   List.map_filter doc_title rows"
  by (induction rows) (auto split: option.splits)

lemma group_rows_title_filter:
  "group_rows (filter (\<lambda>r. doc_title r \<noteq> None) rows) name = group_rows rows name"
  by (induction rows) (auto simp: group_rows_def)

lemma doc_loop_cong:
  assumes "\<And>name. group_rows rows name = group_rows rows' name"
  shows "doc_loop rows names between = doc_loop rows' names between"
  by (induction names arbitrary: between) (auto simp: assms split: option.splits)

text \<open>A row without a title belongs to no document and adds nothing to the result.\<close>

lemma missing_title_excluded:
  "image_between_selected (filter (\<lambda>r. doc_title r \<noteq> None) rows) =
   image_between_selected rows"
  unfolding image_between_selected_def group_keys_def map_filter_title_filter
  by (rule doc_loop_cong) (rule group_rows_title_filter)

text \<open>
  C5. Rows with a missing page number are to be left out of the grouping, and the
  search is to be well defined with them. The code leaves out the rows with a missing
  title only (\<open>missing_title_excluded\<close>). A row with a title and no page number stays in
  its group and is sorted behind the numbers; the inner loop then counts up from the
  last number towards \<open>NaN\<close>, which no number equals, and never returns.
\<close>

theorem missing_page_never_returns:
  "image_between_selected (map annotate [''HGB_1_001_002_007.jpg'', ''HGB_1_001_002.png'']) =
   None"
  by (simp add: between_defs annotate_defs gap_while_NaN)

section \<open>Properties of the table of page counts\<close>

lemma set_map_filter_Some:
  "set (List.map_filter f xs) = {t. Some t \<in> set (map f xs)}"
  by (induction xs) (auto split: option.splits)

lemma set_group_keys: "set (group_keys rows) = {t. Some t \<in> set (map doc_title rows)}"
  by (simp add: group_keys_def set_map_filter_Some)

lemma n_pages_lookup:
  assumes "Some t \<in> set (map doc_title rows)"
  shows "map_of (n_pages rows) t = Some (group_max (map page_nr (group_rows rows t)))"
proof -
  have "t \<in> set (group_keys rows)" using assms by (simp add: set_group_keys)
  then show ?thesis by (simp add: n_pages_def map_of_map_restrict)
qed

lemma numbers_empty: "numbers cells = [] \<longleftrightarrow> list_all (\<lambda>c. c = NaN) cells"
  by (induction cells rule: numbers.induct) auto

lemma group_max_NaN: "group_max cells = NaN \<longleftrightarrow> list_all (\<lambda>c. c = NaN) cells"
  by (cases "numbers cells") (auto simp: group_max_def numbers_empty [symmetric])

lemma group_max_Num:
  "group_max cells = Num n \<Longrightarrow> n = Max (set (numbers cells))"
proof (cases "numbers cells")
  case Nil
  then show "group_max cells = Num n \<Longrightarrow> ?thesis" by (simp add: group_max_def)
next
  case (Cons a ns)
  have "fold max ns a = Max (set (a # ns))" by (rule Max.set_eq_fold [symmetric])
  then show "group_max cells = Num n \<Longrightarrow> ?thesis" using Cons by (simp add: group_max_def)
qed

text \<open>
  C7, as the code has it. Every document title of the image list has an entry in the
  table. The value of the entry is \<open>NaN\<close> exactly when every row of the document has a
  missing page number; otherwise it is the greatest page number of the document, taken
  over the rows that have one.
\<close>

theorem n_pages_entry:
  assumes "Some t \<in> set (map doc_title rows)"
  shows "\<exists>v. map_of (n_pages rows) t = Some v \<and>
    (v = NaN \<longleftrightarrow> list_all (\<lambda>r. page_nr r = NaN) (group_rows rows t)) \<and>
    (\<forall>n. v = Num n \<longrightarrow> n = Max (set (numbers (map page_nr (group_rows rows t)))))"
  using n_pages_lookup [OF assms] group_max_NaN [of "map page_nr (group_rows rows t)"]
    group_max_Num [of "map page_nr (group_rows rows t)"]
  by (auto simp: list_all_iff)

theorem n_pages_entry_witness:
  "Some ''HGB_1_001_003'' \<in>
     set (map doc_title (map annotate [''HGB_1_001_002_007.jpg'', ''HGB_1_001_003.png''])) \<and>
   map_of (n_pages (map annotate [''HGB_1_001_002_007.jpg'', ''HGB_1_001_003.png'']))
     ''HGB_1_001_003'' = Some NaN \<and>
   map_of (n_pages (map annotate [''HGB_1_001_002_007.jpg'', ''HGB_1_001_003.png'']))
     ''HGB_1_001_002'' = Some (Num 7)"
  using n_pages_entry [of "''HGB_1_001_003''"
      "map annotate [''HGB_1_001_002_007.jpg'', ''HGB_1_001_003.png'']"]
  by (simp add: n_pages_def group_max_def group_keys_def group_rows_def annotate_defs)

text \<open>
  The claim C7 fails for an image list with a document whose only file has no page
  number: the document has a row in the table.
\<close>

theorem n_pages_keeps_document_counterexample:
  "n_pages (map annotate [''HGB_1_001_002_007.jpg'', ''HGB_1_001_003.png'']) =
     [(''HGB_1_001_002'', Num 7), (''HGB_1_001_003'', NaN)] \<and>
   list_all (\<lambda>r. page_nr r = NaN)
     (group_rows (map annotate [''HGB_1_001_002_007.jpg'', ''HGB_1_001_003.png''])
        ''HGB_1_001_003'')"
  by (simp add: n_pages_def group_max_def group_keys_def group_rows_def annotate_defs)

section \<open>Properties of the samples\<close>




lemma guarded_sample_all:
  "length between \<le> 1000 \<Longrightarrow> image_between_selected_sample drawn between = Inr between"
  by (simp add: image_between_selected_sample_def)

lemma unguarded_sample_small:
  "length rows < 1000 \<Longrightarrow> sample_rows drawn rows 1000 = Inl ValueError"
  by (simp add: sample_rows_def random_sample_def)

text \<open>
  C4. With fewer than 1000 rows, each place that takes a sample is to return every row.
  The sample of the pages between selected pages does (\<open>guarded_sample_all\<close>): it is
  guarded by a test of the number of rows. The other three places call
  \<open>random.sample\<close> unguarded, which raises ValueError, whatever the generator would
  draw (\<open>unguarded_sample_small\<close>). Here for three rows.
\<close>

theorem unguarded_samples_raise:
  "image_selected_sample drawn [''a'', ''b'', ''c''] = Inl ValueError \<and>
   image_sample drawn [''a'', ''b'', ''c''] = Inl ValueError \<and>
   user_image_selected_sample drawn [''a'', ''b'', ''c''] = Inl ValueError \<and>
   image_between_selected_sample drawn [''a'', ''b'', ''c''] = Inr [''a'', ''b'', ''c'']"
  by (simp add: image_selected_sample_def image_sample_def user_image_selected_sample_def
      image_between_selected_sample_def sample_rows_def random_sample_def)




end
